theory Spec2Isabelle
  imports Complex_Main
begin

section \<open>Positions, values and errors\<close>

text \<open>
  A \<open>Position\<close> is the (row, column) coordinate of \<open>common.h\<close>.  The sheet owns one
  \<open>Cell\<close> object per occupied position, so a \<open>Cell*\<close> of the source is modelled by the
  position of the cell it points to.
\<close>

datatype Position = Position (row: int) (col: int)

datatype Category = Ref | Value | Div0

datatype FormulaError = FormulaError (GetCategory: Category)

fun ToString :: "FormulaError \<Rightarrow> string" where
  "ToString (FormulaError Ref) = ''#REF!''"
| "ToString (FormulaError Value) = ''#VALUE!''"
| "ToString (FormulaError Div0) = ''#DIV/0!''"

text \<open>The C++ \<open>double\<close>; no property below depends on rounding.\<close>

type_synonym double = real

text \<open>\<open>FormulaInterface::Value\<close> is \<open>variant<double, FormulaError>\<close>,
  \<open>CellInterface::Value\<close> is \<open>variant<string, double, FormulaError>\<close>.\<close>

datatype FormulaValue = FDouble double | FError FormulaError

datatype CellValue = VString string | VDouble double | VError FormulaError

datatype exception =
    logic_error string
  | FormulaException string
  | CircularDependencyException string

text \<open>Modelled from the spec: the reserved sentinel characters of \<open>common.h\<close>
  (the formula sentinel \<open>=\<close> and the escape sentinel \<open>'\<close>).\<close>

definition FORMULA_SIGN :: char where
  "FORMULA_SIGN = CHR ''=''"

definition ESCAPE_SIGN :: char where
  "ESCAPE_SIGN = CHR 0x27"

section \<open>The evaluator collaborator\<close>

text \<open>
  Modelled from the spec: the parsed expression object \<open>FormulaAST\<close> (not under src).
  The spec gives it three observations: the raw list of referenced positions, the printed
  expression, and \<open>execute(resolver_callback)\<close>, which yields a number or fails with a
  \<open>FormulaError\<close>.  An execution is the tree of what the expression does with its
  callback: it returns a number, throws an error of its own (division by zero), or calls
  the resolver at a position and continues with the number it gets back.
\<close>

datatype Execution =
    Return double
  | Throw FormulaError
  | Call Position "double \<Rightarrow> Execution"

datatype FormulaAST =
  FormulaAST (GetCells: "Position list") (PrintFormula: string) (Program: Execution)

text \<open>
  The parts of the environment whose code is not under src: \<open>Position::IsValid\<close>, the
  parser \<open>ParseFormulaAST\<close> (\<open>None\<close> when it throws), and the stream extraction
  \<open>iss >> result\<close> of the standard library (\<open>None\<close> when the extraction fails, otherwise
  the number read and whether the stream is at end of file afterwards).
\<close>

record collaborators =
  IsValid :: "Position \<Rightarrow> bool"
  ParseFormulaAST :: "string \<Rightarrow> FormulaAST option"
  read_double :: "string \<Rightarrow> (double \<times> bool) option"

text \<open>\<open>ast_.Execute(callback)\<close>: an exception thrown by the callback leaves the
  execution at once.  The callback reads and updates the state \<open>'st\<close>; \<open>None\<close> is a
  callback that does not return.\<close>

primrec Execute ::
  "Execution \<Rightarrow> (Position \<Rightarrow> 'st \<Rightarrow> ((FormulaError + double) \<times> 'st) option)
     \<Rightarrow> 'st \<Rightarrow> ((FormulaError + double) \<times> 'st) option" where
  "Execute (Return d) callback s = Some (Inr d, s)"
| "Execute (Throw e) callback s = Some (Inl e, s)"
| "Execute (Call pos k) callback s =
     (case callback pos s of
        None \<Rightarrow> None
      | Some (Inl e, s') \<Rightarrow> Some (Inl e, s')
      | Some (Inr d, s') \<Rightarrow> Execute (k d) callback s')"

section \<open>Cell contents\<close>

datatype Impl =
    EmptyImpl
  | TextImpl string
  | FormulaImpl FormulaAST "FormulaValue option"

definition TextImpl_ctor :: "string \<Rightarrow> exception + Impl" where
  "TextImpl_ctor t =
     (if t = [] then Inl (logic_error ''Here is no text'') else Inr (TextImpl t))"

definition ParseFormula :: "collaborators \<Rightarrow> string \<Rightarrow> exception + FormulaAST" where
  "ParseFormula env expression =
     (case ParseFormulaAST env expression of
        None \<Rightarrow> Inl (FormulaException ''Parsing failed'')
      | Some ast \<Rightarrow> Inr ast)"

definition FormulaImpl_ctor :: "collaborators \<Rightarrow> string \<Rightarrow> exception + Impl" where
  "FormulaImpl_ctor env expression =
     (case expression of
        [] \<Rightarrow> Inl (logic_error ''Something wrong with formula implementation'')
      | c # rest \<Rightarrow>
          if c \<noteq> FORMULA_SIGN
          then Inl (logic_error ''Something wrong with formula implementation'')
          else (case ParseFormula env rest of
                  Inl e \<Rightarrow> Inl e
                | Inr ast \<Rightarrow> Inr (FormulaImpl ast None)))"

text \<open>\<open>Formula::GetReferencedCells\<close>: the valid positions of the raw list, then
  \<open>std::unique\<close>, which removes every element equal to its predecessor.\<close>

definition Formula_GetReferencedCells :: "collaborators \<Rightarrow> FormulaAST \<Rightarrow> Position list" where
  "Formula_GetReferencedCells env ast = remdups_adj (filter (IsValid env) (GetCells ast))"

fun Impl_GetReferencedCells :: "collaborators \<Rightarrow> Impl \<Rightarrow> Position list" where
  "Impl_GetReferencedCells env EmptyImpl = []"
| "Impl_GetReferencedCells env (TextImpl t) = []"
| "Impl_GetReferencedCells env (FormulaImpl ast cache) = Formula_GetReferencedCells env ast"

fun Impl_GetText :: "Impl \<Rightarrow> string" where
  "Impl_GetText EmptyImpl = []"
| "Impl_GetText (TextImpl t) = t"
| "Impl_GetText (FormulaImpl ast cache) = FORMULA_SIGN # PrintFormula ast"

fun Impl_GetCache :: "Impl \<Rightarrow> FormulaValue option" where
  "Impl_GetCache EmptyImpl = None"
| "Impl_GetCache (TextImpl t) = None"
| "Impl_GetCache (FormulaImpl ast cache) = cache"

fun Impl_DestroyCache :: "Impl \<Rightarrow> Impl" where
  "Impl_DestroyCache EmptyImpl = EmptyImpl"
| "Impl_DestroyCache (TextImpl t) = TextImpl t"
| "Impl_DestroyCache (FormulaImpl ast cache) = FormulaImpl ast None"

text \<open>\<open>TextImpl::GetValue\<close>; \<open>text_\<close> is never empty (the constructor refuses it), so
  \<open>at(0)\<close> finds a character.\<close>

fun TextImpl_GetValue :: "string \<Rightarrow> string" where
  "TextImpl_GetValue [] = []"
| "TextImpl_GetValue (c # cs) = (if c = ESCAPE_SIGN then cs else c # cs)"

fun visit_Value :: "FormulaValue \<Rightarrow> CellValue" where
  "visit_Value (FDouble d) = VDouble d"
| "visit_Value (FError e) = VError e"

section \<open>Cells and the sheet\<close>

text \<open>
  The two \<open>unordered_set<Cell*>\<close> fields are duplicate-free lists of positions; the order
  in which the source iterates over them is unspecified, the model takes the list order.
\<close>

record Cell =
  impl :: Impl
  referenced_cells :: "Position list"
  dependent_cells :: "Position list"

type_synonym Sheet = "Position \<Rightarrow> Cell option"

text \<open>Modelled from the spec: the sheet collaborator (\<open>sheet.cpp\<close> is not under src).
  \<open>get_cell\<close> yields the cell at a position, if there is one; \<open>set_cell\<close> with the empty
  text on a position without a cell materializes an Empty cell there.\<close>

definition GetCell :: "Sheet \<Rightarrow> Position \<Rightarrow> Cell option" where
  "GetCell s pos = s pos"

definition new_Cell :: Cell where
  "new_Cell = \<lparr>impl = EmptyImpl, referenced_cells = [], dependent_cells = []\<rparr>"

definition SetCell_empty :: "Position \<Rightarrow> Sheet \<Rightarrow> Sheet" where
  "SetCell_empty pos s = s(pos \<mapsto> new_Cell)"

text \<open>A write through a cell pointer.\<close>

definition map_cell :: "Position \<Rightarrow> (Cell \<Rightarrow> Cell) \<Rightarrow> Sheet \<Rightarrow> Sheet" where
  "map_cell p f s = (case s p of None \<Rightarrow> s | Some c \<Rightarrow> s(p \<mapsto> f c))"

definition GetCache :: "Sheet \<Rightarrow> Position \<Rightarrow> FormulaValue option" where
  "GetCache s p = (case s p of None \<Rightarrow> None | Some c \<Rightarrow> Impl_GetCache (impl c))"

definition dependents_of :: "Sheet \<Rightarrow> Position \<Rightarrow> Position list" where
  "dependents_of s p = (case s p of None \<Rightarrow> [] | Some c \<Rightarrow> dependent_cells c)"

definition references_of :: "Sheet \<Rightarrow> Position \<Rightarrow> Position list" where
  "references_of s p = (case s p of None \<Rightarrow> [] | Some c \<Rightarrow> referenced_cells c)"

definition GetText :: "Sheet \<Rightarrow> Position \<Rightarrow> string" where
  "GetText s this = (case s this of None \<Rightarrow> [] | Some c \<Rightarrow> Impl_GetText (impl c))"

definition GetReferencedCells :: "collaborators \<Rightarrow> Sheet \<Rightarrow> Position \<Rightarrow> Position list" where
  "GetReferencedCells env s this =
     (case s this of None \<Rightarrow> [] | Some c \<Rightarrow> Impl_GetReferencedCells env (impl c))"

definition Clear :: "Position \<Rightarrow> Sheet \<Rightarrow> Sheet" where
  "Clear this s = map_cell this (\<lambda>c. c\<lparr>impl := EmptyImpl\<rparr>) s"

section \<open>Reading a value\<close>

text \<open>
  The resolver lambda \<open>CellImpl\<close> of \<open>Formula::Evaluate\<close>.  The source calls
  \<open>cell->GetValue()\<close> once for each test and once more for each \<open>std::get\<close>; after the
  first call a formula cell answers from its memo and an Empty or Text cell computes its
  value without any effect, so the model reads the value once (lemma \<open>GetValue_again\<close>
  below: a second \<open>GetValue\<close> answers the same value and changes nothing).
\<close>

definition CellImpl ::
  "collaborators \<Rightarrow> (Position \<Rightarrow> Sheet \<Rightarrow> (CellValue \<times> Sheet) option)
     \<Rightarrow> Position \<Rightarrow> Sheet \<Rightarrow> ((FormulaError + double) \<times> Sheet) option" where
  "CellImpl env cell_GetValue pos s =
     (if \<not> IsValid env pos then Some (Inl (FormulaError Ref), s)
      else case GetCell s pos of
        None \<Rightarrow> Some (Inr 0, s)
      | Some cell \<Rightarrow>
          (case cell_GetValue pos s of
             None \<Rightarrow> None
           | Some (VDouble d, s') \<Rightarrow> Some (Inr d, s')
           | Some (VString str, s') \<Rightarrow>
               (if str = [] then Some (Inr 0, s')
                else case read_double env str of
                  None \<Rightarrow> Some (Inl (FormulaError Value), s')
                | Some (result, eof) \<Rightarrow>
                    if eof then Some (Inr result, s') else Some (Inl (FormulaError Value), s'))
           | Some (VError e, s') \<Rightarrow> Some (Inl e, s')))"

text \<open>\<open>Formula::Evaluate\<close>: a \<open>FormulaError\<close> thrown during the execution is caught and
  returned as the value.\<close>

definition Evaluate ::
  "collaborators \<Rightarrow> (Position \<Rightarrow> Sheet \<Rightarrow> (CellValue \<times> Sheet) option)
     \<Rightarrow> FormulaAST \<Rightarrow> Sheet \<Rightarrow> (FormulaValue \<times> Sheet) option" where
  "Evaluate env cell_GetValue ast s =
     (case Execute (Program ast) (CellImpl env cell_GetValue) s of
        None \<Rightarrow> None
      | Some (Inl e, s') \<Rightarrow> Some (FError e, s')
      | Some (Inr d, s') \<Rightarrow> Some (FDouble d, s'))"

text \<open>\<open>Cell::GetValue\<close> through \<open>impl_->GetValue()\<close>.  \<open>FormulaImpl::GetValue\<close> fills the
  memo when it is absent.  The argument \<open>evaluate\<close> is \<open>formula_->Evaluate(sheet_)\<close>.  The
  method is called on a cell, so a position without a cell has no value (\<open>None\<close>); the
  resolver asks \<open>GetCell\<close> before it calls.\<close>

definition GetValue_with ::
  "(FormulaAST \<Rightarrow> Sheet \<Rightarrow> (FormulaValue \<times> Sheet) option)
     \<Rightarrow> Position \<Rightarrow> Sheet \<Rightarrow> (CellValue \<times> Sheet) option" where
  "GetValue_with evaluate this s =
     (case s this of
        None \<Rightarrow> None
      | Some c \<Rightarrow>
          (case impl c of
             EmptyImpl \<Rightarrow> Some (VString [], s)
           | TextImpl t \<Rightarrow> Some (VString (TextImpl_GetValue t), s)
           | FormulaImpl ast cache \<Rightarrow>
               (case cache of
                  Some v \<Rightarrow> Some (visit_Value v, s)
                | None \<Rightarrow>
                    (case evaluate ast s of
                       None \<Rightarrow> None
                     | Some (v, s') \<Rightarrow>
                         Some (visit_Value v,
                               map_cell this (\<lambda>c'. c'\<lparr>impl := FormulaImpl ast (Some v)\<rparr>) s')))))"

text \<open>Evaluation follows the references from cell to cell; the first argument bounds
  the number of nested evaluations, and \<open>None\<close> is an evaluation that needs more.\<close>

primrec GetValue :: "nat \<Rightarrow> collaborators \<Rightarrow> Position \<Rightarrow> Sheet \<Rightarrow> (CellValue \<times> Sheet) option" where
  "GetValue 0 env = GetValue_with (\<lambda>ast s. None)"
| "GetValue (Suc n) env = GetValue_with (Evaluate env (GetValue n env))"

section \<open>Changing a cell\<close>

text \<open>The choice of the new content in \<open>Cell::Set\<close>.\<close>

definition new_impl :: "collaborators \<Rightarrow> string \<Rightarrow> exception + Impl" where
  "new_impl env txt =
     (if txt = [] then Inr EmptyImpl
      else if 1 < length txt \<and> hd txt = FORMULA_SIGN then FormulaImpl_ctor env txt
      else TextImpl_ctor txt)"

text \<open>\<open>Cell::CheckCircularDependencyImpl\<close>.  The result is the exception thrown or the
  set \<open>visited\<close> at the end of the loop.  The first argument bounds the depth of the
  recursion; \<open>None\<close> is a search that needs more.\<close>

fun CheckCircularDependencyImpl ::
  "nat \<Rightarrow> collaborators \<Rightarrow> Sheet \<Rightarrow> Position \<Rightarrow> Position list \<Rightarrow> Position list
     \<Rightarrow> (exception + Position list) option" where
  "CheckCircularDependencyImpl n env s this visited [] = Some (Inr visited)"
| "CheckCircularDependencyImpl n env s this visited (pos # positions) =
     (case GetCell s pos of
        None \<Rightarrow> CheckCircularDependencyImpl n env s this visited positions
      | Some cell \<Rightarrow>
          if pos = this then Some (Inl (CircularDependencyException ''Circular cell''))
          else if pos \<in> set visited
          then CheckCircularDependencyImpl n env s this visited positions
          else
            (let ref_cells = Impl_GetReferencedCells env (impl cell) in
             if ref_cells \<noteq> [] then
               (case n of
                  0 \<Rightarrow> None
                | Suc m \<Rightarrow>
                    (case CheckCircularDependencyImpl m env s this visited ref_cells of
                       None \<Rightarrow> None
                     | Some (Inl e) \<Rightarrow> Some (Inl e)
                     | Some (Inr visited') \<Rightarrow>
                         CheckCircularDependencyImpl n env s this (pos # visited') positions))
             else CheckCircularDependencyImpl n env s this (pos # visited) positions))"

definition CheckCircularDependency ::
  "nat \<Rightarrow> collaborators \<Rightarrow> Sheet \<Rightarrow> Position \<Rightarrow> Position list \<Rightarrow> exception option option" where
  "CheckCircularDependency n env s this ref_cells =
     (case CheckCircularDependencyImpl n env s this [] ref_cells of
        None \<Rightarrow> None
      | Some (Inl e) \<Rightarrow> Some (Some e)
      | Some (Inr visited) \<Rightarrow> Some None)"

text \<open>\<open>Cell::UpdateDependencies\<close>: the first loop runs over \<open>dependent_cells_\<close> and erases
  \<open>this\<close> from the \<open>referenced_cells_\<close> of each; the second loop adds the new edges.\<close>

definition add_reference :: "Position \<Rightarrow> Position \<Rightarrow> Sheet \<Rightarrow> Sheet" where
  "add_reference this pos s =
     (let s' = (case GetCell s pos of None \<Rightarrow> SetCell_empty pos s | Some ref_cell \<Rightarrow> s) in
      map_cell pos (\<lambda>c. c\<lparr>dependent_cells := List.insert this (dependent_cells c)\<rparr>)
        (map_cell this (\<lambda>c. c\<lparr>referenced_cells := List.insert pos (referenced_cells c)\<rparr>) s'))"

definition UpdateDependencies :: "collaborators \<Rightarrow> Position \<Rightarrow> Sheet \<Rightarrow> Sheet" where
  "UpdateDependencies env this s =
     (let s1 = fold (\<lambda>cell. map_cell cell
                       (\<lambda>c. c\<lparr>referenced_cells := removeAll this (referenced_cells c)\<rparr>))
                 (dependents_of s this) s;
          s2 = map_cell this (\<lambda>c. c\<lparr>referenced_cells := []\<rparr>) s1
      in fold (add_reference this) (GetReferencedCells env s2 this) s2)"

text \<open>\<open>Cell::DestroyCache\<close>: the loop over the dependents of a cell.  A dependent that
  holds a memo is entered first and loses its memo afterwards.  The first argument bounds
  the depth of the recursion; \<open>None\<close> is a cascade that needs more.\<close>

fun DestroyCache_loop :: "nat \<Rightarrow> Position list \<Rightarrow> Sheet \<Rightarrow> Sheet option" where
  "DestroyCache_loop n [] s = Some s"
| "DestroyCache_loop n (dep_cell # rest) s =
     (if GetCache s dep_cell \<noteq> None then
        (case n of
           0 \<Rightarrow> None
         | Suc m \<Rightarrow>
             (case DestroyCache_loop m (dependents_of s dep_cell) s of
                None \<Rightarrow> None
              | Some s' \<Rightarrow>
                  DestroyCache_loop n rest
                    (map_cell dep_cell (\<lambda>c. c\<lparr>impl := Impl_DestroyCache (impl c)\<rparr>) s')))
      else DestroyCache_loop n rest s)"

definition DestroyCache :: "nat \<Rightarrow> Position \<Rightarrow> Sheet \<Rightarrow> Sheet option" where
  "DestroyCache n cell s = DestroyCache_loop n (dependents_of s cell) s"

text \<open>\<open>Cell::Set\<close>.  The result is the exception that left the call, if any, and the sheet
  as the call leaves it; \<open>None\<close> when the cycle search or the cascade does not return
  within the bound.\<close>

definition Set :: "nat \<Rightarrow> collaborators \<Rightarrow> Position \<Rightarrow> string \<Rightarrow> Sheet \<Rightarrow> (exception option \<times> Sheet) option" where
  "Set n env this txt s =
     (case new_impl env txt of
        Inl e \<Rightarrow> Some (Some e, s)
      | Inr i \<Rightarrow>
          (case CheckCircularDependency n env s this (Impl_GetReferencedCells env i) of
             None \<Rightarrow> None
           | Some (Some e) \<Rightarrow> Some (Some e, s)
           | Some None \<Rightarrow>
               (case DestroyCache n this
                       (UpdateDependencies env this (map_cell this (\<lambda>c. c\<lparr>impl := i\<rparr>) s)) of
                  None \<Rightarrow> None
                | Some s' \<Rightarrow> Some (None, s'))))"

section \<open>The relations the traversals follow\<close>

text \<open>
  An edge of \<open>memo_edges\<close> leads from a cell to a dependent that holds a memo: the step
  \<open>Cell::DestroyCache\<close> takes.  \<open>memo_targets\<close> are the cells of a list that hold a memo,
  and \<open>clear_memos\<close> drops the memo of every cell of a set.
\<close>

definition memo_edges :: "Sheet \<Rightarrow> (Position \<times> Position) set" where
  "memo_edges s = {(p, d). d \<in> set (dependents_of s p) \<and> GetCache s d \<noteq> None}"

definition memo_targets :: "Sheet \<Rightarrow> Position list \<Rightarrow> Position set" where
  "memo_targets s ds = {d \<in> set ds. GetCache s d \<noteq> None}"

definition clear_memos :: "Position set \<Rightarrow> Sheet \<Rightarrow> Sheet" where
  "clear_memos X s =
     (\<lambda>p. if p \<in> X then map_option (\<lambda>c. c\<lparr>impl := Impl_DestroyCache (impl c)\<rparr>) (s p) else s p)"

text \<open>The same edges as seen from the sheet in which \<open>Cell::Set\<close> starts: the cell being
  edited gets new content, which holds no memo, so no step leads into it.\<close>

definition cascade_edges :: "Sheet \<Rightarrow> Position \<Rightarrow> (Position \<times> Position) set" where
  "cascade_edges s this =
     {(p, d). d \<in> set (dependents_of s p) \<and> GetCache s d \<noteq> None \<and> d \<noteq> this}"


section \<open>Example sheets\<close>

text \<open>Four positions, a parser that knows the formulas \<open>A1\<close>, \<open>B1\<close>, \<open>C1\<close> (each
  reads one cell), \<open>B1+C1\<close> and \<open>A1+B1+A1\<close>, and a number reader that knows a few
  numerals.\<close>

definition A1 :: Position where "A1 = Position 0 0"
definition B1 :: Position where "B1 = Position 0 1"
definition C1 :: Position where "C1 = Position 0 2"
definition D1 :: Position where "D1 = Position 0 3"

definition cell_ref :: "Position \<Rightarrow> string \<Rightarrow> FormulaAST" where
  "cell_ref p name = FormulaAST [p] name (Call p Return)"

definition sum_ast :: "Position \<Rightarrow> Position \<Rightarrow> string \<Rightarrow> FormulaAST" where
  "sum_ast p q name = FormulaAST [p, q] name (Call p (\<lambda>x. Call q (\<lambda>y. Return (x + y))))"

definition dup_ast :: FormulaAST where
  "dup_ast = FormulaAST [A1, B1, A1] ''A1+B1+A1''
     (Call A1 (\<lambda>x. Call B1 (\<lambda>y. Call A1 (\<lambda>z. Return (x + y + z)))))"

definition demo_env :: collaborators where
  "demo_env =
     \<lparr>IsValid = (\<lambda>p. 0 \<le> row p \<and> 0 \<le> col p),
      ParseFormulaAST = (\<lambda>t.
        if t = ''A1'' then Some (cell_ref A1 ''A1'')
        else if t = ''B1'' then Some (cell_ref B1 ''B1'')
        else if t = ''C1'' then Some (cell_ref C1 ''C1'')
        else if t = ''B1+C1'' then Some (sum_ast B1 C1 ''B1+C1'')
        else if t = ''A1+B1+A1'' then Some dup_ast
        else None),
      read_double = (\<lambda>t.
        if t = ''1'' then Some (1, True)
        else if t = ''5'' then Some (5, True)
        else if t = ''7'' then Some (7, True)
        else if t = ''7up'' then Some (7, False)
        else None)\<rparr>"

definition sheet_A :: Sheet where
  "sheet_A = [A1 \<mapsto> new_Cell]"


text \<open>Modelled from the spec: the sheet's \<open>set_cell\<close>.  A cell is created (as Empty) when
  it is first addressed; the sheet then hands the text to \<open>Cell::Set\<close>.\<close>

definition SetCell :: "nat \<Rightarrow> collaborators \<Rightarrow> Position \<Rightarrow> string \<Rightarrow> Sheet \<Rightarrow> (exception option \<times> Sheet) option" where
  "SetCell n env pos txt s =
     Set n env pos txt (case GetCell s pos of None \<Rightarrow> SetCell_empty pos s | Some cell \<Rightarrow> s)"


text \<open>The sheets of \<open>B1 = abc\<close>, \<open>C1 = =A1\<close>, \<open>D1 = =B1+C1\<close>: before \<open>D1\<close> is read, after
  it is read (the evaluation stops at \<open>B1\<close>, so \<open>C1\<close> is never evaluated), and after \<open>A1\<close> is
  set to \<open>5\<close>.\<close>

definition err_sheet_1 :: Sheet where
  "err_sheet_1 = [B1 \<mapsto> \<lparr>impl = TextImpl ''abc'', referenced_cells = [], dependent_cells = []\<rparr>]"

definition err_sheet_2 :: Sheet where
  "err_sheet_2 =
     [A1 \<mapsto> \<lparr>impl = EmptyImpl, referenced_cells = [], dependent_cells = [C1]\<rparr>,
      B1 \<mapsto> \<lparr>impl = TextImpl ''abc'', referenced_cells = [], dependent_cells = []\<rparr>,
      C1 \<mapsto> \<lparr>impl = FormulaImpl (cell_ref A1 ''A1'') None,
              referenced_cells = [A1], dependent_cells = []\<rparr>]"

definition err_sheet_3 :: Sheet where
  "err_sheet_3 =
     [A1 \<mapsto> \<lparr>impl = EmptyImpl, referenced_cells = [], dependent_cells = [C1]\<rparr>,
      B1 \<mapsto> \<lparr>impl = TextImpl ''abc'', referenced_cells = [], dependent_cells = [D1]\<rparr>,
      C1 \<mapsto> \<lparr>impl = FormulaImpl (cell_ref A1 ''A1'') None,
              referenced_cells = [A1], dependent_cells = [D1]\<rparr>,
      D1 \<mapsto> \<lparr>impl = FormulaImpl (sum_ast B1 C1 ''B1+C1'') None,
              referenced_cells = [C1, B1], dependent_cells = []\<rparr>]"

definition err_sheet :: Sheet where
  "err_sheet =
     [A1 \<mapsto> \<lparr>impl = EmptyImpl, referenced_cells = [], dependent_cells = [C1]\<rparr>,
      B1 \<mapsto> \<lparr>impl = TextImpl ''abc'', referenced_cells = [], dependent_cells = [D1]\<rparr>,
      C1 \<mapsto> \<lparr>impl = FormulaImpl (cell_ref A1 ''A1'') None,
              referenced_cells = [A1], dependent_cells = [D1]\<rparr>,
      D1 \<mapsto> \<lparr>impl = FormulaImpl (sum_ast B1 C1 ''B1+C1'') (Some (FError (FormulaError Value))),
              referenced_cells = [C1, B1], dependent_cells = []\<rparr>]"


text \<open>The sheets of \<open>A1 = =B1\<close> followed by \<open>A1 =\<close> (empty).\<close>

definition edge_sheet :: Sheet where
  "edge_sheet =
     [A1 \<mapsto> \<lparr>impl = FormulaImpl (cell_ref B1 ''B1'') None,
              referenced_cells = [B1], dependent_cells = []\<rparr>,
      B1 \<mapsto> \<lparr>impl = EmptyImpl, referenced_cells = [], dependent_cells = [A1]\<rparr>]"

definition edge_sheet' :: Sheet where
  "edge_sheet' =
     [A1 \<mapsto> \<lparr>impl = EmptyImpl, referenced_cells = [], dependent_cells = []\<rparr>,
      B1 \<mapsto> \<lparr>impl = EmptyImpl, referenced_cells = [], dependent_cells = [A1]\<rparr>]"

text \<open>The sheets of \<open>A1 = 1\<close>, \<open>B1 = =A1\<close>: as set, after \<open>B1\<close> is read, after \<open>A1\<close> is set
  to \<open>5\<close>, and after \<open>A1\<close> is cleared instead.\<close>

definition memo_sheet_1 :: Sheet where
  "memo_sheet_1 = [A1 \<mapsto> \<lparr>impl = TextImpl ''1'', referenced_cells = [], dependent_cells = []\<rparr>]"

definition memo_sheet_2 :: Sheet where
  "memo_sheet_2 =
     [A1 \<mapsto> \<lparr>impl = TextImpl ''1'', referenced_cells = [], dependent_cells = [B1]\<rparr>,
      B1 \<mapsto> \<lparr>impl = FormulaImpl (cell_ref A1 ''A1'') None,
              referenced_cells = [A1], dependent_cells = []\<rparr>]"

definition memo_sheet :: Sheet where
  "memo_sheet =
     [A1 \<mapsto> \<lparr>impl = TextImpl ''1'', referenced_cells = [], dependent_cells = [B1]\<rparr>,
      B1 \<mapsto> \<lparr>impl = FormulaImpl (cell_ref A1 ''A1'') (Some (FDouble 1)),
              referenced_cells = [A1], dependent_cells = []\<rparr>]"

definition memo_sheet_set :: Sheet where
  "memo_sheet_set =
     [A1 \<mapsto> \<lparr>impl = TextImpl ''5'', referenced_cells = [], dependent_cells = [B1]\<rparr>,
      B1 \<mapsto> \<lparr>impl = FormulaImpl (cell_ref A1 ''A1'') None,
              referenced_cells = [], dependent_cells = []\<rparr>]"

definition memo_sheet_cleared :: Sheet where
  "memo_sheet_cleared =
     [A1 \<mapsto> \<lparr>impl = EmptyImpl, referenced_cells = [], dependent_cells = [B1]\<rparr>,
      B1 \<mapsto> \<lparr>impl = FormulaImpl (cell_ref A1 ''A1'') (Some (FDouble 1)),
              referenced_cells = [A1], dependent_cells = []\<rparr>]"

text \<open>The sheets of \<open>A1 = =B1\<close>, then \<open>A1 = =C1\<close>, then \<open>B1 = =A1\<close>, then \<open>B1\<close> read: the
  edge from \<open>B1\<close> to its former dependent \<open>A1\<close> is still there, so the dependents form a
  cycle, and both formulas hold a memo.\<close>

definition cyc_sheet_2 :: Sheet where
  "cyc_sheet_2 =
     [A1 \<mapsto> \<lparr>impl = FormulaImpl (cell_ref C1 ''C1'') None,
              referenced_cells = [C1], dependent_cells = []\<rparr>,
      B1 \<mapsto> \<lparr>impl = EmptyImpl, referenced_cells = [], dependent_cells = [A1]\<rparr>,
      C1 \<mapsto> \<lparr>impl = EmptyImpl, referenced_cells = [], dependent_cells = [A1]\<rparr>]"

definition cyc_sheet_3 :: Sheet where
  "cyc_sheet_3 =
     [A1 \<mapsto> \<lparr>impl = FormulaImpl (cell_ref C1 ''C1'') None,
              referenced_cells = [C1], dependent_cells = [B1]\<rparr>,
      B1 \<mapsto> \<lparr>impl = FormulaImpl (cell_ref A1 ''A1'') None,
              referenced_cells = [A1], dependent_cells = [A1]\<rparr>,
      C1 \<mapsto> \<lparr>impl = EmptyImpl, referenced_cells = [], dependent_cells = [A1]\<rparr>]"

definition cyc_sheet :: Sheet where
  "cyc_sheet =
     [A1 \<mapsto> \<lparr>impl = FormulaImpl (cell_ref C1 ''C1'') (Some (FDouble 0)),
              referenced_cells = [C1], dependent_cells = [B1]\<rparr>,
      B1 \<mapsto> \<lparr>impl = FormulaImpl (cell_ref A1 ''A1'') (Some (FDouble 0)),
              referenced_cells = [A1], dependent_cells = [A1]\<rparr>,
      C1 \<mapsto> \<lparr>impl = EmptyImpl, referenced_cells = [], dependent_cells = [A1]\<rparr>]"

text \<open>The sheet in which the cascade starts when \<open>C1\<close> gets the content \<open>i\<close>.\<close>

definition cyc_sheet_mid :: "Impl \<Rightarrow> Sheet" where
  "cyc_sheet_mid i =
     [A1 \<mapsto> \<lparr>impl = FormulaImpl (cell_ref C1 ''C1'') (Some (FDouble 0)),
              referenced_cells = [], dependent_cells = [B1]\<rparr>,
      B1 \<mapsto> \<lparr>impl = FormulaImpl (cell_ref A1 ''A1'') (Some (FDouble 0)),
              referenced_cells = [A1], dependent_cells = [A1]\<rparr>,
      C1 \<mapsto> \<lparr>impl = i, referenced_cells = [], dependent_cells = [A1]\<rparr>]"

text \<open>A sheet with a cell of every kind of value: text that is a number, text with
  trailing characters, text that is no number, the empty cell, a formula whose memo is a
  number and a formula whose memo is an error.\<close>

definition value_sheet :: Sheet where
  "value_sheet =
     [A1 \<mapsto> \<lparr>impl = TextImpl ''7'', referenced_cells = [], dependent_cells = []\<rparr>,
      B1 \<mapsto> \<lparr>impl = TextImpl ''7up'', referenced_cells = [], dependent_cells = []\<rparr>,
      C1 \<mapsto> \<lparr>impl = FormulaImpl (cell_ref A1 ''A1'') (Some (FDouble 7)),
              referenced_cells = [A1], dependent_cells = []\<rparr>,
      D1 \<mapsto> \<lparr>impl = FormulaImpl (cell_ref B1 ''B1'') (Some (FError (FormulaError Div0))),
              referenced_cells = [B1], dependent_cells = []\<rparr>,
      Position 1 0 \<mapsto> \<lparr>impl = EmptyImpl, referenced_cells = [], dependent_cells = []\<rparr>,
      Position 1 1 \<mapsto> \<lparr>impl = TextImpl ''abc'', referenced_cells = [], dependent_cells = []\<rparr>]"

section \<open>The invalidation cascade\<close>

lemma Impl_DestroyCache_idem: "Impl_DestroyCache (Impl_DestroyCache i) = Impl_DestroyCache i"
  by (cases i) simp_all

lemma Impl_GetCache_DestroyCache: "Impl_GetCache (Impl_DestroyCache i) = None"
  by (cases i) simp_all

lemma Impl_DestroyCache_no_cache: "Impl_GetCache i = None \<Longrightarrow> Impl_DestroyCache i = i"
  by (cases i) simp_all

lemma clear_memos_empty: "clear_memos {} s = s"
  by (simp add: clear_memos_def)

lemma clear_memos_twice: "clear_memos X (clear_memos Y s) = clear_memos (X \<union> Y) s"
  by (rule ext) (auto simp: clear_memos_def option.map_comp comp_def Impl_DestroyCache_idem split: option.splits)

lemma map_cell_clear: "map_cell d (\<lambda>c. c\<lparr>impl := Impl_DestroyCache (impl c)\<rparr>) s = clear_memos {d} s"
  by (rule ext) (auto simp: clear_memos_def map_cell_def split: option.splits)

lemma dependents_of_clear: "dependents_of (clear_memos X s) p = dependents_of s p"
  by (auto simp: clear_memos_def dependents_of_def split: option.splits)

lemma GetCache_clear: "GetCache (clear_memos X s) p = (if p \<in> X then None else GetCache s p)"
  by (auto simp: clear_memos_def GetCache_def Impl_GetCache_DestroyCache split: option.splits)

lemma memo_edges_clear: "memo_edges (clear_memos X s) = {(p, d) \<in> memo_edges s. d \<notin> X}"
  by (auto simp: memo_edges_def dependents_of_clear GetCache_clear)

lemma memo_targets_clear: "memo_targets (clear_memos X s) ds = memo_targets s ds - X"
  by (auto simp: memo_targets_def GetCache_clear)

lemma restricted_reach:
  assumes closed: "E `` D \<subseteq> D"
  shows "{(p, q) \<in> E. q \<notin> D}\<^sup>* `` (T - D) = E\<^sup>* `` T - D"
proof (intro equalityI subsetI)
  fix x assume "x \<in> {(p, q) \<in> E. q \<notin> D}\<^sup>* `` (T - D)"
  then obtain t where t: "t \<in> T" "t \<notin> D" and r: "(t, x) \<in> {(p, q) \<in> E. q \<notin> D}\<^sup>*" by auto
  from r have "(t, x) \<in> E\<^sup>* \<and> x \<notin> D"
    by (induction rule: rtrancl_induct) (use t in \<open>auto intro: rtrancl_into_rtrancl\<close>)
  with t show "x \<in> E\<^sup>* `` T - D" by auto
next
  fix x assume "x \<in> E\<^sup>* `` T - D"
  then obtain t where t: "t \<in> T" and r: "(t, x) \<in> E\<^sup>*" and x: "x \<notin> D" by auto
  from r x have "(t, x) \<in> {(p, q) \<in> E. q \<notin> D}\<^sup>* \<and> t \<notin> D"
  proof (induction rule: rtrancl_induct)
    case base
    then show ?case by simp
  next
    case (step y z)
    from step.hyps(2) step.prems closed have "y \<notin> D" by auto
    with step.IH have "(t, y) \<in> {(p, q) \<in> E. q \<notin> D}\<^sup>*" "t \<notin> D" by auto
    moreover from step.hyps(2) step.prems have "(y, z) \<in> {(p, q) \<in> E. q \<notin> D}" by simp
    ultimately show ?case by (auto intro: rtrancl_into_rtrancl)
  qed
  with t show "x \<in> {(p, q) \<in> E. q \<notin> D}\<^sup>* `` (T - D)" by auto
qed

lemma memo_edges_Image: "memo_edges s `` {d} = memo_targets s (dependents_of s d)"
  by (auto simp: memo_edges_def memo_targets_def)

lemma rtrancl_Image_step: "E\<^sup>* `` {d} = insert d (E\<^sup>* `` (E `` {d}))"
  by (auto intro: converse_rtrancl_into_rtrancl elim: converse_rtranclE)

lemma DestroyCache_loop_result:
  "DestroyCache_loop n ds s = Some s' \<Longrightarrow>
     s' = clear_memos ((memo_edges s)\<^sup>* `` memo_targets s ds) s"
proof (induction n ds s arbitrary: s' rule: DestroyCache_loop.induct)
  case (1 n s)
  then show ?case by (simp add: memo_targets_def clear_memos_empty)
next
  case (2 n d rest s)
  show ?case
  proof (cases "GetCache s d = None")
    case True
    then have "memo_targets s (d # rest) = memo_targets s rest"
      by (auto simp: memo_targets_def)
    with 2 True show ?thesis by simp
  next
    case False
    with "2.prems" obtain m s1 where n: "n = Suc m"
      and s1: "DestroyCache_loop m (dependents_of s d) s = Some s1"
      and rest: "DestroyCache_loop n rest (map_cell d (\<lambda>c. c\<lparr>impl := Impl_DestroyCache (impl c)\<rparr>) s1) = Some s'"
      by (auto split: nat.splits option.splits)
    let ?E = "memo_edges s"
    let ?D = "?E\<^sup>* `` {d}"
    have s1': "s1 = clear_memos (?E\<^sup>* `` memo_targets s (dependents_of s d)) s"
      using "2.IH"(1) [OF False n s1] .
    have s2: "map_cell d (\<lambda>c. c\<lparr>impl := Impl_DestroyCache (impl c)\<rparr>) s1 = clear_memos ?D s"
    proof -
      have "?D = {d} \<union> ?E\<^sup>* `` memo_targets s (dependents_of s d)"
        using rtrancl_Image_step [of ?E d] by (simp add: memo_edges_Image)
      then show ?thesis
        unfolding map_cell_clear s1' clear_memos_twice by simp
    qed
    have closed: "?E `` ?D \<subseteq> ?D" by (auto intro: rtrancl_into_rtrancl)
    have "s' = clear_memos ((memo_edges (clear_memos ?D s))\<^sup>* `` memo_targets (clear_memos ?D s) rest) (clear_memos ?D s)"
      using "2.IH"(2) [OF False n s1 rest] unfolding s2 .
    also have "\<dots> = clear_memos ((?E\<^sup>* `` memo_targets s rest - ?D) \<union> ?D) s"
      by (simp only: memo_edges_clear memo_targets_clear restricted_reach [OF closed] clear_memos_twice)
    also have "(?E\<^sup>* `` memo_targets s rest - ?D) \<union> ?D = ?E\<^sup>* `` memo_targets s (d # rest)"
      using False by (auto simp: memo_targets_def)
    finally show ?thesis .
  qed
qed

lemma DestroyCache_step:
  assumes "GetCache s d \<noteq> None" "DestroyCache_loop m (dependents_of s d) s = Some s1"
  shows "map_cell d (\<lambda>c. c\<lparr>impl := Impl_DestroyCache (impl c)\<rparr>) s1
           = clear_memos ((memo_edges s)\<^sup>* `` {d}) s"
proof -
  have "(memo_edges s)\<^sup>* `` {d}
          = {d} \<union> (memo_edges s)\<^sup>* `` memo_targets s (dependents_of s d)"
    using rtrancl_Image_step [of "memo_edges s" d] by (simp add: memo_edges_Image)
  then show ?thesis
    unfolding map_cell_clear DestroyCache_loop_result [OF assms(2)] clear_memos_twice by simp
qed

lemma relpow_Image_mono:
  fixes R S :: "('a \<times> 'a) set"
  assumes "R \<subseteq> S" "X \<subseteq> Y"
  shows "(R ^^ n) `` X \<subseteq> (S ^^ n) `` Y"
proof -
  have "R ^^ n \<subseteq> S ^^ n" using assms(1) by (induction n) auto
  with assms(2) show ?thesis by blast
qed

lemma relpow_Suc_Image:
  fixes R :: "('a \<times> 'a) set"
  shows "(R ^^ n) `` (R `` X) = (R ^^ Suc n) `` X"
proof -
  have "(R ^^ Suc n) = R O R ^^ n" by (simp add: relpow_commute)
  then show ?thesis by blast
qed

lemma DestroyCache_loop_returns:
  "(memo_edges s ^^ n) `` memo_targets s ds = {} \<Longrightarrow> \<exists>s'. DestroyCache_loop n ds s = Some s'"
proof (induction n ds s rule: DestroyCache_loop.induct)
  case (1 n s)
  then show ?case by simp
next
  case (2 n d rest s)
  let ?E = "memo_edges s"
  show ?case
  proof (cases "GetCache s d = None")
    case True
    then have "memo_targets s (d # rest) = memo_targets s rest"
      by (auto simp: memo_targets_def)
    with 2 True show ?thesis by simp
  next
    case False
    then have d: "d \<in> memo_targets s (d # rest)" by (simp add: memo_targets_def)
    have "n \<noteq> 0"
    proof
      assume "n = 0"
      with "2.prems" d show False by auto
    qed
    then obtain m where n: "n = Suc m" by (cases n) auto
    have "(?E ^^ m) `` memo_targets s (dependents_of s d) = (?E ^^ Suc m) `` {d}"
      by (simp only: memo_edges_Image [symmetric] relpow_Suc_Image)
    also have "\<dots> \<subseteq> (?E ^^ n) `` memo_targets s (d # rest)"
      unfolding n using d by blast
    finally have "(?E ^^ m) `` memo_targets s (dependents_of s d) = {}"
      using "2.prems" by simp
    from "2.IH"(1) [OF False n this] obtain s1
      where s1: "DestroyCache_loop m (dependents_of s d) s = Some s1" by blast
    let ?s2 = "map_cell d (\<lambda>c. c\<lparr>impl := Impl_DestroyCache (impl c)\<rparr>) s1"
    have s2: "?s2 = clear_memos (?E\<^sup>* `` {d}) s" by (rule DestroyCache_step [OF False s1])
    have "(memo_edges ?s2 ^^ n) `` memo_targets ?s2 rest \<subseteq> (?E ^^ n) `` memo_targets s (d # rest)"
    proof (rule relpow_Image_mono)
      show "memo_edges ?s2 \<subseteq> ?E" unfolding s2 memo_edges_clear by auto
      have "memo_targets s rest \<subseteq> memo_targets s (d # rest)" by (auto simp: memo_targets_def)
      then show "memo_targets ?s2 rest \<subseteq> memo_targets s (d # rest)"
        unfolding s2 memo_targets_clear by auto
    qed
    with "2.prems" have "(memo_edges ?s2 ^^ n) `` memo_targets ?s2 rest = {}" by simp
    from "2.IH"(2) [OF False n s1 this] obtain s' where "DestroyCache_loop n rest ?s2 = Some s'"
      by blast
    with False n s1 show ?thesis by simp
  qed
qed

section \<open>The cycle search\<close>






section \<open>The edge rebuild\<close>

lemma GetCache_map_cell:
  "(\<And>c. Impl_GetCache (impl (f c)) = Impl_GetCache (impl c)) \<Longrightarrow>
     GetCache (map_cell p f s) q = GetCache s q"
  by (auto simp: GetCache_def map_cell_def split: option.splits)

lemma dependents_of_map_cell:
  "(\<And>c. dependent_cells (f c) = dependent_cells c) \<Longrightarrow>
     dependents_of (map_cell p f s) q = dependents_of s q"
  by (auto simp: dependents_of_def map_cell_def split: option.splits)

lemma impl_map_cell:
  "(\<And>c. impl (f c) = impl c) \<Longrightarrow> map_option impl (map_cell p f s q) = map_option impl (s q)"
  by (auto simp: map_cell_def split: option.splits)

lemma GetCache_materialize:
  "GetCache (case GetCell s pos of None \<Rightarrow> SetCell_empty pos s | Some ref_cell \<Rightarrow> s) q = GetCache s q"
  by (auto simp: GetCell_def SetCell_empty_def GetCache_def new_Cell_def split: option.splits)

lemma dependents_of_materialize:
  "dependents_of (case GetCell s pos of None \<Rightarrow> SetCell_empty pos s | Some ref_cell \<Rightarrow> s) q
     = dependents_of s q"
  by (auto simp: GetCell_def SetCell_empty_def dependents_of_def new_Cell_def split: option.splits)

lemma materialize_present:
  "(case GetCell s pos of None \<Rightarrow> SetCell_empty pos s | Some ref_cell \<Rightarrow> s) pos \<noteq> None"
  by (auto simp: GetCell_def SetCell_empty_def split: option.splits)

lemma materialize_same:
  "s q \<noteq> None \<Longrightarrow>
     (case GetCell s pos of None \<Rightarrow> SetCell_empty pos s | Some ref_cell \<Rightarrow> s) q = s q"
  by (auto simp: GetCell_def SetCell_empty_def split: option.splits)

lemma GetCache_add_reference: "GetCache (add_reference this pos s) q = GetCache s q"
  by (simp add: add_reference_def Let_def GetCache_map_cell GetCache_materialize)

lemma dependents_of_add_reference:
  "set (dependents_of (add_reference this pos s) q)
     = (if q = pos then insert this (set (dependents_of s q)) else set (dependents_of s q))"
proof -
  let ?s' = "case GetCell s pos of None \<Rightarrow> SetCell_empty pos s | Some ref_cell \<Rightarrow> s"
  let ?s'' = "map_cell this (\<lambda>c. c\<lparr>referenced_cells := List.insert pos (referenced_cells c)\<rparr>) ?s'"
  have d: "dependents_of ?s'' q = dependents_of s q" for q
    by (simp add: dependents_of_map_cell dependents_of_materialize)
  have "?s' pos \<noteq> None" by (rule materialize_present)
  then have present: "?s'' pos \<noteq> None" by (auto simp: map_cell_def split: option.splits)
  have "set (dependents_of (map_cell pos (\<lambda>c. c\<lparr>dependent_cells := List.insert this (dependent_cells c)\<rparr>) ?s'') q)
          = (if q = pos then insert this (set (dependents_of ?s'' q)) else set (dependents_of ?s'' q))"
    using present by (auto simp: dependents_of_def map_cell_def split: option.splits)
  then show ?thesis unfolding d by (simp add: add_reference_def Let_def)
qed

lemma impl_add_reference:
  "s q \<noteq> None \<Longrightarrow> map_option impl (add_reference this pos s q) = map_option impl (s q)"
  by (simp add: add_reference_def Let_def impl_map_cell materialize_same)

lemma GetCache_fold_add: "GetCache (fold (add_reference this) ps s) q = GetCache s q"
  by (induction ps arbitrary: s) (simp_all add: GetCache_add_reference)

lemma dependents_of_fold_add:
  "set (dependents_of (fold (add_reference this) ps s) q)
     = (if q \<in> set ps then insert this (set (dependents_of s q)) else set (dependents_of s q))"
  by (induction ps arbitrary: s) (auto simp: dependents_of_add_reference)

lemma impl_fold_add:
  "s q \<noteq> None \<Longrightarrow> map_option impl (fold (add_reference this) ps s q) = map_option impl (s q)"
proof (induction ps arbitrary: s)
  case Nil
  then show ?case by simp
next
  case (Cons p ps)
  from Cons.prems have "map_option impl (add_reference this p s q) = map_option impl (s q)"
    by (rule impl_add_reference)
  moreover from this Cons.prems have "add_reference this p s q \<noteq> None" by (cases "s q") auto
  ultimately show ?case using Cons.IH by simp
qed

lemma GetCache_fold_erase:
  "GetCache (fold (\<lambda>cell. map_cell cell (\<lambda>c. c\<lparr>referenced_cells := g (referenced_cells c)\<rparr>)) ds s) q
     = GetCache s q"
  by (induction ds arbitrary: s) (simp_all add: GetCache_map_cell)

lemma dependents_of_fold_erase:
  "dependents_of (fold (\<lambda>cell. map_cell cell (\<lambda>c. c\<lparr>referenced_cells := g (referenced_cells c)\<rparr>)) ds s) q
     = dependents_of s q"
  by (induction ds arbitrary: s) (simp_all add: dependents_of_map_cell)

lemma impl_fold_erase:
  "map_option impl (fold (\<lambda>cell. map_cell cell (\<lambda>c. c\<lparr>referenced_cells := g (referenced_cells c)\<rparr>)) ds s q)
     = map_option impl (s q)"
  by (induction ds arbitrary: s) (simp_all add: impl_map_cell)

lemma GetCache_UpdateDependencies: "GetCache (UpdateDependencies env this s) q = GetCache s q"
  by (simp add: UpdateDependencies_def Let_def GetCache_fold_add GetCache_map_cell GetCache_fold_erase)

lemma dependents_of_UpdateDependencies:
  "set (dependents_of (UpdateDependencies env this s) q) - {this} = set (dependents_of s q) - {this}"
  by (simp add: UpdateDependencies_def Let_def dependents_of_fold_add dependents_of_map_cell
        dependents_of_fold_erase)

lemma impl_UpdateDependencies:
  assumes "s q \<noteq> None"
  shows "map_option impl (UpdateDependencies env this s q) = map_option impl (s q)"
proof -
  let ?s1 = "fold (\<lambda>cell. map_cell cell
                       (\<lambda>c. c\<lparr>referenced_cells := removeAll this (referenced_cells c)\<rparr>))
                 (dependents_of s this) s"
  let ?s2 = "map_cell this (\<lambda>c. c\<lparr>referenced_cells := []\<rparr>) ?s1"
  have 2: "map_option impl (?s2 q) = map_option impl (s q)"
    by (simp add: impl_map_cell impl_fold_erase)
  with assms have "?s2 q \<noteq> None" by (cases "s q") auto
  from impl_fold_add [where s = "?s2" and q = q, OF this] 2 show ?thesis
    by (simp add: UpdateDependencies_def Let_def)
qed

lemma new_impl_no_cache: "new_impl env txt = Inr i \<Longrightarrow> Impl_GetCache i = None"
  by (auto simp: new_impl_def TextImpl_ctor_def FormulaImpl_ctor_def ParseFormula_def
        split: if_splits list.splits option.splits sum.splits)

lemma memo_edges_after_install:
  assumes "Impl_GetCache i = None"
  shows "memo_edges (UpdateDependencies env this (map_cell this (\<lambda>c. c\<lparr>impl := i\<rparr>) s))
           = cascade_edges s this"
proof -
  let ?s0 = "map_cell this (\<lambda>c. c\<lparr>impl := i\<rparr>) s"
  have cache: "GetCache ?s0 q = (if q = this then None else GetCache s q)" for q
    using assms by (auto simp: GetCache_def map_cell_def split: option.splits)
  have deps: "dependents_of ?s0 q = dependents_of s q" for q
    by (simp add: dependents_of_map_cell)
  have "d \<in> set (dependents_of (UpdateDependencies env this ?s0) p) \<longleftrightarrow> d \<in> set (dependents_of s p)"
    if "d \<noteq> this" for d p
    using dependents_of_UpdateDependencies [of env this ?s0 p] that unfolding deps by blast
  then show ?thesis
    by (auto simp: memo_edges_def cascade_edges_def GetCache_UpdateDependencies cache split: if_splits)
qed

section \<open>Cell::Set\<close>

lemma trancl_Image_unfold: "R\<^sup>* `` (R `` X) = R\<^sup>+ `` X"
proof -
  have "R\<^sup>+ = R O R\<^sup>*" by (rule trancl_unfold_left)
  then show ?thesis by blast
qed

lemma CheckCircularDependency_empty: "CheckCircularDependency n env s this [] = Some None"
  by (simp add: CheckCircularDependency_def)

lemma Set_success:
  assumes i: "new_impl env txt = Inr i"
    and chk: "CheckCircularDependency n env s this (Impl_GetReferencedCells env i) = Some None"
    and bound: "(cascade_edges s this ^^ Suc n) `` {this} = {}"
  shows "Set n env this txt s = Some (None,
           clear_memos ((cascade_edges s this)\<^sup>+ `` {this})
             (UpdateDependencies env this (map_cell this (\<lambda>c. c\<lparr>impl := i\<rparr>) s)))"
proof -
  let ?s2 = "UpdateDependencies env this (map_cell this (\<lambda>c. c\<lparr>impl := i\<rparr>) s)"
  let ?E = "cascade_edges s this"
  have E: "memo_edges ?s2 = ?E"
    by (rule memo_edges_after_install) (rule new_impl_no_cache [OF i])
  have T: "memo_targets ?s2 (dependents_of ?s2 this) = ?E `` {this}"
    using memo_edges_Image [of ?s2 this] unfolding E by simp
  have "(memo_edges ?s2 ^^ n) `` memo_targets ?s2 (dependents_of ?s2 this) = {}"
    unfolding E T relpow_Suc_Image by (rule bound)
  then obtain s' where s': "DestroyCache_loop n (dependents_of ?s2 this) ?s2 = Some s'"
    using DestroyCache_loop_returns by blast
  from DestroyCache_loop_result [OF s'] have "s' = clear_memos (?E\<^sup>+ `` {this}) ?s2"
    unfolding E T trancl_Image_unfold .
  with s' i chk show ?thesis by (simp add: Set_def DestroyCache_def)
qed

lemma Set_success_this:
  assumes i: "new_impl env txt = Inr i"
    and chk: "CheckCircularDependency n env s this (Impl_GetReferencedCells env i) = Some None"
    and bound: "(cascade_edges s this ^^ Suc n) `` {this} = {}"
    and live: "GetCell s this \<noteq> None"
  shows "\<exists>s' c'. Set n env this txt s = Some (None, s') \<and> GetCell s' this = Some c' \<and> impl c' = i"
proof -
  let ?s0 = "map_cell this (\<lambda>c. c\<lparr>impl := i\<rparr>) s"
  let ?s2 = "UpdateDependencies env this ?s0"
  from live have 0: "map_option impl (?s0 this) = Some i"
    by (auto simp: map_cell_def GetCell_def split: option.splits)
  then have "?s0 this \<noteq> None" by auto
  from impl_UpdateDependencies [where s = "?s0" and q = this, OF this] 0
  have "map_option impl (?s2 this) = Some i" by simp
  then obtain c2 where c2: "?s2 this = Some c2" "impl c2 = i" by auto
  have "Impl_DestroyCache i = i"
    by (rule Impl_DestroyCache_no_cache) (rule new_impl_no_cache [OF i])
  with c2 have "\<exists>c'. clear_memos X ?s2 this = Some c' \<and> impl c' = i" for X
    by (auto simp: clear_memos_def)
  with Set_success [OF i chk bound] show ?thesis by (auto simp: GetCell_def)
qed

lemma CheckCircularDependencyImpl_exception:
  "CheckCircularDependencyImpl n env s this visited positions = Some (Inl e) \<Longrightarrow>
     e = CircularDependencyException ''Circular cell''"
proof (induction n env s this visited positions rule: CheckCircularDependencyImpl.induct)
  case (1 n env s this visited)
  then show ?case by simp
next
  case (2 n env s this visited pos positions)
  show ?case
  proof (cases "GetCell s pos")
    case None
    with "2.prems" "2.IH"(1) [OF None] show ?thesis by simp
  next
    case (Some cell)
    note gc = Some
    let ?refs = "Impl_GetReferencedCells env (impl cell)"
    show ?thesis
    proof (cases "pos = this")
      case True
      with gc "2.prems" show ?thesis by simp
    next
      case neq: False
      show ?thesis
      proof (cases "pos \<in> set visited")
        case True
        with "2.prems" "2.IH"(2) [OF gc neq True] neq gc show ?thesis by simp
      next
        case unvisited: False
        show ?thesis
        proof (cases "?refs = []")
          case True
          then have nn: "\<not> ?refs \<noteq> []" by simp
          from "2.prems" "2.IH"(5) [OF gc neq unvisited refl nn] True unvisited neq gc
          show ?thesis by simp
        next
          case nonempty: False
          from nonempty unvisited neq gc "2.prems" obtain m r1 where n: "n = Suc m"
            and r1: "CheckCircularDependencyImpl m env s this visited ?refs = Some r1"
            by (auto split: nat.splits option.splits)
          show ?thesis
          proof (cases r1)
            case (Inl e1)
            with r1 nonempty unvisited neq gc n "2.prems" have "e1 = e" by simp
            with "2.IH"(3) [OF gc neq unvisited refl nonempty n] r1 Inl show ?thesis by simp
          next
            case (Inr visited1)
            with r1 nonempty unvisited neq gc n "2.prems"
            have "CheckCircularDependencyImpl n env s this (pos # visited1) positions = Some (Inl e)"
              by simp
            with "2.IH"(4) [OF gc neq unvisited refl nonempty n r1 Inr] show ?thesis by simp
          qed
        qed
      qed
    qed
  qed
qed

lemma CheckCircularDependency_exception:
  "CheckCircularDependency n env s this refs = Some (Some e) \<Longrightarrow>
     e = CircularDependencyException ''Circular cell''"
  by (auto simp: CheckCircularDependency_def split: option.splits sum.splits
        dest: CheckCircularDependencyImpl_exception)

lemma new_impl_exception:
  "new_impl env txt = Inl e \<Longrightarrow> e = FormulaException ''Parsing failed''"
  by (auto simp: new_impl_def TextImpl_ctor_def FormulaImpl_ctor_def ParseFormula_def
        split: if_splits list.splits option.splits sum.splits)

text \<open>
  Claim C4.  \<open>Cell::Set\<close> is atomic on failure: when an exception leaves the call, the
  sheet is the one the call started in, so the content of the cell, its two edge sets and
  every memo of every cell are as they were.  The exceptions that can leave the call are
  the parser's failure and the circular dependency.
\<close>

theorem Set_failure_atomic:
  "Set n env this txt s = Some (Some e, s') \<Longrightarrow>
     s' = s \<and> (e = FormulaException ''Parsing failed''
              \<or> e = CircularDependencyException ''Circular cell'')"
  by (auto simp: Set_def split: sum.splits option.splits
        dest: new_impl_exception CheckCircularDependency_exception)

lemma demo_self_reference:
  "map_option fst (Set 0 demo_env A1 ''=A1'' sheet_A)
     = Some (Some (CircularDependencyException ''Circular cell''))"
  by (simp add: Set_def new_impl_def FormulaImpl_ctor_def ParseFormula_def demo_env_def
        FORMULA_SIGN_def cell_ref_def Formula_GetReferencedCells_def A1_def
        CheckCircularDependency_def GetCell_def sheet_A_def)

theorem Set_failure_atomic_witness:
  "Set 0 demo_env A1 ''=A1'' sheet_A
     = Some (Some (CircularDependencyException ''Circular cell''), sheet_A)"
proof -
  from demo_self_reference obtain s'
    where r: "Set 0 demo_env A1 ''=A1'' sheet_A
                = Some (Some (CircularDependencyException ''Circular cell''), s')"
    by (cases "Set 0 demo_env A1 ''=A1'' sheet_A") auto
  from Set_failure_atomic [OF r] r show ?thesis by simp
qed

text \<open>
  Claim C9.  The \<open>logic_error\<close> of the \<open>TextImpl\<close> constructor is out of reach of
  \<open>Cell::Set\<close>: the empty input becomes Empty content, and no call of \<open>Set\<close> ends in a
  \<open>logic_error\<close>, whatever the input, the cell and the sheet.
\<close>

theorem Set_never_logic_error:
  "new_impl env [] = Inr EmptyImpl
   \<and> new_impl env txt \<noteq> Inl (logic_error msg)
   \<and> Set n env this txt s \<noteq> Some (Some (logic_error msg), s')"
proof -
  have "new_impl env txt \<noteq> Inl (logic_error msg)"
    using new_impl_exception [of env "txt" "logic_error msg"] by auto
  moreover have "Set n env this txt s \<noteq> Some (Some (logic_error msg), s')"
    by (auto simp: Set_def split: sum.splits option.splits
          dest: new_impl_exception CheckCircularDependency_exception)
  ultimately show ?thesis by (simp add: new_impl_def)
qed

lemma GetValue_Text:
  "GetCell s this = Some c \<Longrightarrow> impl c = TextImpl t \<Longrightarrow>
     GetValue m env this s = Some (VString (TextImpl_GetValue t), s)"
  by (cases m) (simp_all add: GetValue_with_def GetCell_def)

lemma GetText_Text: "GetCell s this = Some c \<Longrightarrow> impl c = TextImpl t \<Longrightarrow> GetText s this = t"
  by (simp add: GetText_def GetCell_def)

lemma new_impl_text:
  "txt \<noteq> [] \<Longrightarrow> \<not> (1 < length txt \<and> hd txt = FORMULA_SIGN) \<Longrightarrow> new_impl env txt = Inr (TextImpl txt)"
  by (auto simp: new_impl_def TextImpl_ctor_def)

lemma Set_text:
  assumes live: "GetCell s this \<noteq> None"
    and bound: "(cascade_edges s this ^^ Suc n) `` {this} = {}"
    and plain: "txt \<noteq> []" "\<not> (1 < length txt \<and> hd txt = FORMULA_SIGN)"
  shows "\<exists>s'. Set n env this txt s = Some (None, s') \<and> GetText s' this = txt
           \<and> GetValue m env this s' = Some (VString (TextImpl_GetValue txt), s')"
proof -
  have i: "new_impl env txt = Inr (TextImpl txt)" by (rule new_impl_text [OF plain])
  have chk: "CheckCircularDependency n env s this (Impl_GetReferencedCells env (TextImpl txt)) = Some None"
    by (simp add: CheckCircularDependency_empty)
  from Set_success_this [OF i chk bound live] obtain s' c'
    where "Set n env this txt s = Some (None, s')" "GetCell s' this = Some c'" "impl c' = TextImpl txt"
    by blast
  then show ?thesis by (auto simp: GetValue_Text GetText_Text)
qed

text \<open>
  Text content where the cascade returns.  On a live cell from which no chain of
  memo-holding dependents has more than \<open>n\<close> steps, \<open>Set\<close> of a non-empty string that begins
  with the escape sentinel leaves \<open>text()\<close> equal to the string and \<open>value()\<close> equal to the
  string without its first character; \<open>Set\<close> of a non-empty string that does not begin
  with the escape sentinel and is not formula input leaves both equal to the string.
\<close>

theorem Set_text_and_escape:
  assumes live: "GetCell s this \<noteq> None"
    and bound: "(cascade_edges s this ^^ Suc n) `` {this} = {}"
  shows "(txt \<noteq> [] \<and> hd txt = ESCAPE_SIGN \<longrightarrow>
           (\<exists>s'. Set n env this txt s = Some (None, s') \<and> GetText s' this = txt
              \<and> GetValue m env this s' = Some (VString (tl txt), s')))
       \<and> (txt \<noteq> [] \<and> hd txt \<noteq> ESCAPE_SIGN \<and> \<not> (1 < length txt \<and> hd txt = FORMULA_SIGN) \<longrightarrow>
           (\<exists>s'. Set n env this txt s = Some (None, s') \<and> GetText s' this = txt
              \<and> GetValue m env this s' = Some (VString txt, s')))"
proof (intro conjI impI)
  assume a: "txt \<noteq> [] \<and> hd txt = ESCAPE_SIGN"
  then have "\<not> (1 < length txt \<and> hd txt = FORMULA_SIGN)"
    by (simp add: ESCAPE_SIGN_def FORMULA_SIGN_def)
  from Set_text [OF live bound _ this, of env m] a
  show "\<exists>s'. Set n env this txt s = Some (None, s') \<and> GetText s' this = txt
          \<and> GetValue m env this s' = Some (VString (tl txt), s')"
    by (cases "txt") auto
next
  assume a: "txt \<noteq> [] \<and> hd txt \<noteq> ESCAPE_SIGN \<and> \<not> (1 < length txt \<and> hd txt = FORMULA_SIGN)"
  from Set_text [OF live bound, of "txt" env m] a
  show "\<exists>s'. Set n env this txt s = Some (None, s') \<and> GetText s' this = txt
          \<and> GetValue m env this s' = Some (VString txt, s')"
    by (cases "txt") auto
qed

text \<open>
  The formula sentinel alone, where the cascade returns.  On a live cell from which no
  chain of memo-holding dependents has more than \<open>n\<close> steps, \<open>Set\<close> of the one-character
  string \<open>=\<close> installs Text content and returns without an exception, and afterwards
  \<open>text()\<close> and \<open>value()\<close> are both \<open>=\<close>.  On every sheet the parser is consulted only for
  an input longer than one character whose first character is the formula sentinel: for
  every other input the new content does not depend on the parser, and for such an input
  it is what the parser makes of the rest.
\<close>

theorem Set_formula_sign_alone:
  assumes live: "GetCell s this \<noteq> None"
    and bound: "(cascade_edges s this ^^ Suc n) `` {this} = {}"
  shows "(\<exists>s' c'. Set n env this ''='' s = Some (None, s')
            \<and> GetCell s' this = Some c' \<and> impl c' = TextImpl ''=''
            \<and> GetText s' this = ''=''
            \<and> GetValue m env this s' = Some (VString ''='', s'))
       \<and> (\<forall>txt parser. \<not> (1 < length txt \<and> hd txt = FORMULA_SIGN) \<longrightarrow>
            new_impl (env\<lparr>ParseFormulaAST := parser\<rparr>) txt = new_impl env txt)
       \<and> (\<forall>txt. 1 < length txt \<and> hd txt = FORMULA_SIGN \<longrightarrow>
            new_impl env txt =
              (case ParseFormulaAST env (tl txt) of
                 None \<Rightarrow> Inl (FormulaException ''Parsing failed'')
               | Some ast \<Rightarrow> Inr (FormulaImpl ast None)))"
proof (intro conjI allI impI)
  have i: "new_impl env ''='' = Inr (TextImpl ''='')" by (simp add: new_impl_def TextImpl_ctor_def)
  have chk: "CheckCircularDependency n env s this (Impl_GetReferencedCells env (TextImpl ''='')) = Some None"
    by (simp add: CheckCircularDependency_empty)
  from Set_success_this [OF i chk bound live] obtain s' c'
    where r: "Set n env this ''='' s = Some (None, s')" "GetCell s' this = Some c'" "impl c' = TextImpl ''=''"
    by blast
  have "TextImpl_GetValue ''='' = ''=''" by (simp add: ESCAPE_SIGN_def)
  with r GetValue_Text [OF r(2,3), of m env] GetText_Text [OF r(2,3)]
  show "\<exists>s' c'. Set n env this ''='' s = Some (None, s')
            \<and> GetCell s' this = Some c' \<and> impl c' = TextImpl ''=''
            \<and> GetText s' this = ''=''
            \<and> GetValue m env this s' = Some (VString ''='', s')"
    by auto
next
  fix t :: string and parser
  assume a: "\<not> (1 < length t \<and> hd t = FORMULA_SIGN)"
  show "new_impl (env\<lparr>ParseFormulaAST := parser\<rparr>) t = new_impl env t"
    unfolding new_impl_def by (simp only: a if_False)
next
  fix t :: string
  assume "1 < length t \<and> hd t = FORMULA_SIGN"
  then show "new_impl env t =
              (case ParseFormulaAST env (tl t) of
                 None \<Rightarrow> Inl (FormulaException ''Parsing failed'')
               | Some ast \<Rightarrow> Inr (FormulaImpl ast None))"
    by (cases t) (auto simp: new_impl_def FormulaImpl_ctor_def ParseFormula_def split: option.splits)
qed

lemma sheet_A_live: "GetCell sheet_A A1 \<noteq> None"
  by (simp add: GetCell_def sheet_A_def)

lemma sheet_A_no_cascade: "(cascade_edges sheet_A A1 ^^ Suc 0) `` {A1} = {}"
  by (auto simp: cascade_edges_def dependents_of_def sheet_A_def new_Cell_def)

theorem Set_text_and_escape_witness:
  "(\<exists>s'. Set 0 demo_env A1 (CHR 0x27 # ''123'') sheet_A = Some (None, s')
        \<and> GetText s' A1 = CHR 0x27 # ''123''
        \<and> GetValue 0 demo_env A1 s' = Some (VString ''123'', s'))
   \<and> (\<exists>s'. Set 0 demo_env A1 ''abc'' sheet_A = Some (None, s')
        \<and> GetText s' A1 = ''abc''
        \<and> GetValue 0 demo_env A1 s' = Some (VString ''abc'', s'))"
  using Set_text_and_escape [OF sheet_A_live sheet_A_no_cascade, of "CHR 0x27 # ''123''" demo_env 0]
    Set_text_and_escape [OF sheet_A_live sheet_A_no_cascade, of "''abc''" demo_env 0]
  by (simp add: ESCAPE_SIGN_def FORMULA_SIGN_def)

theorem Set_formula_sign_alone_witness:
  "\<exists>s' c'. Set 0 demo_env A1 ''='' sheet_A = Some (None, s')
      \<and> GetCell s' A1 = Some c' \<and> impl c' = TextImpl ''=''
      \<and> GetText s' A1 = ''=''
      \<and> GetValue 0 demo_env A1 s' = Some (VString ''='', s')"
  using Set_formula_sign_alone [OF sheet_A_live sheet_A_no_cascade, of demo_env 0]
  by simp

section \<open>Cell::Set and the cascade\<close>






section \<open>Worked sheets\<close>

lemmas demo_defs = A1_def B1_def C1_def D1_def demo_env_def cell_ref_def sum_ast_def dup_ast_def

lemmas op_defs = SetCell_def Set_def new_impl_def TextImpl_ctor_def FormulaImpl_ctor_def
  ParseFormula_def FORMULA_SIGN_def ESCAPE_SIGN_def Formula_GetReferencedCells_def
  CheckCircularDependency_def GetCell_def SetCell_empty_def new_Cell_def UpdateDependencies_def
  add_reference_def DestroyCache_def dependents_of_def references_of_def GetReferencedCells_def
  map_cell_def GetCache_def Let_def Clear_def GetValue_with_def Evaluate_def CellImpl_def

lemma err_sheet_reached:
  "SetCell 0 demo_env B1 ''abc'' Map.empty = Some (None, err_sheet_1)
   \<and> SetCell 0 demo_env C1 ''=A1'' err_sheet_1 = Some (None, err_sheet_2)
   \<and> SetCell 1 demo_env D1 ''=B1+C1'' err_sheet_2 = Some (None, err_sheet_3)
   \<and> GetValue 1 demo_env D1 err_sheet_3 = Some (VError (FormulaError Value), err_sheet)"
proof (intro conjI)
  show "SetCell 0 demo_env B1 ''abc'' Map.empty = Some (None, err_sheet_1)"
    by (simp add: op_defs demo_defs err_sheet_1_def)
  show "SetCell 0 demo_env C1 ''=A1'' err_sheet_1 = Some (None, err_sheet_2)"
    by (simp add: op_defs demo_defs err_sheet_1_def err_sheet_2_def) ((rule ext, simp)?)
  show "SetCell 1 demo_env D1 ''=B1+C1'' err_sheet_2 = Some (None, err_sheet_3)"
    by (simp add: op_defs demo_defs err_sheet_2_def err_sheet_3_def) ((rule ext, simp)?)
  show "GetValue 1 demo_env D1 err_sheet_3 = Some (VError (FormulaError Value), err_sheet)"
    by (simp add: op_defs demo_defs err_sheet_3_def err_sheet_def) ((rule ext, simp)?)
qed



text \<open>
  Claim C1 fails on the code.  After \<open>A1 = =B1\<close> and then \<open>A1 =\<close> (empty), \<open>B1\<close> still
  lists \<open>A1\<close> as a dependent while \<open>A1\<close> references nothing: the first loop of
  \<open>UpdateDependencies\<close> runs over \<open>dependent_cells_\<close> and erases from \<open>referenced_cells_\<close>.
  For the same reason setting \<open>A1\<close> under \<open>B1 = =A1\<close> removes \<open>A1\<close> from the references of
  \<open>B1\<close>, whose formula still reads \<open>A1\<close> and which \<open>A1\<close> still lists as a dependent.
\<close>

theorem UpdateDependencies_leaves_stale_edge:
  "SetCell 0 demo_env A1 ''=B1'' Map.empty = Some (None, edge_sheet)
   \<and> Set 0 demo_env A1 [] edge_sheet = Some (None, edge_sheet')
   \<and> A1 \<in> set (dependents_of edge_sheet' B1)
   \<and> B1 \<notin> set (references_of edge_sheet' A1)
   \<and> Set 1 demo_env A1 ''5'' memo_sheet = Some (None, memo_sheet_set)
   \<and> B1 \<in> set (dependents_of memo_sheet_set A1)
   \<and> A1 \<notin> set (references_of memo_sheet_set B1)
   \<and> GetReferencedCells demo_env memo_sheet_set B1 = [A1]"
proof (intro conjI)
  show "SetCell 0 demo_env A1 ''=B1'' Map.empty = Some (None, edge_sheet)"
    by (simp add: op_defs demo_defs edge_sheet_def) ((rule ext, simp)?)
  show "Set 0 demo_env A1 [] edge_sheet = Some (None, edge_sheet')"
    by (simp add: op_defs demo_defs edge_sheet_def edge_sheet'_def) ((rule ext, simp)?)
  show "A1 \<in> set (dependents_of edge_sheet' B1)"
    by (simp add: dependents_of_def edge_sheet'_def demo_defs)
  show "B1 \<notin> set (references_of edge_sheet' A1)"
    by (simp add: references_of_def edge_sheet'_def demo_defs)
  show "Set 1 demo_env A1 ''5'' memo_sheet = Some (None, memo_sheet_set)"
    by (simp add: op_defs demo_defs memo_sheet_def memo_sheet_set_def numeral_eq_Suc) ((rule ext, simp)?)
  show "B1 \<in> set (dependents_of memo_sheet_set A1)"
    by (simp add: dependents_of_def memo_sheet_set_def demo_defs)
  show "A1 \<notin> set (references_of memo_sheet_set B1)"
    by (simp add: references_of_def memo_sheet_set_def demo_defs)
  show "GetReferencedCells demo_env memo_sheet_set B1 = [A1]"
    by (simp add: op_defs memo_sheet_set_def demo_defs)
qed

text \<open>
  Claim C3 fails on the code.  With \<open>A1 = 1\<close> and \<open>B1 = =A1\<close> evaluated, \<open>Clear\<close> of \<open>A1\<close>
  leaves the memo \<open>1\<close> of \<open>B1\<close> in place, although evaluating the formula of \<open>B1\<close> in the
  sheet after the call yields \<open>0\<close>; reading \<open>B1\<close> still answers \<open>1\<close>.
\<close>

theorem Clear_leaves_stale_memo:
  "SetCell 0 demo_env A1 ''1'' Map.empty = Some (None, memo_sheet_1)
   \<and> SetCell 0 demo_env B1 ''=A1'' memo_sheet_1 = Some (None, memo_sheet_2)
   \<and> GetValue 1 demo_env B1 memo_sheet_2 = Some (VDouble 1, memo_sheet)
   \<and> Clear A1 memo_sheet = memo_sheet_cleared
   \<and> GetCache memo_sheet_cleared B1 = Some (FDouble 1)
   \<and> Evaluate demo_env (GetValue 0 demo_env) (cell_ref A1 ''A1'') memo_sheet_cleared
       = Some (FDouble 0, memo_sheet_cleared)
   \<and> GetValue 1 demo_env B1 memo_sheet_cleared = Some (VDouble 1, memo_sheet_cleared)"
proof (intro conjI)
  show "SetCell 0 demo_env A1 ''1'' Map.empty = Some (None, memo_sheet_1)"
    by (simp add: op_defs demo_defs memo_sheet_1_def)
  show "SetCell 0 demo_env B1 ''=A1'' memo_sheet_1 = Some (None, memo_sheet_2)"
    by (simp add: op_defs demo_defs memo_sheet_1_def memo_sheet_2_def) ((rule ext, simp)?)
  show "GetValue 1 demo_env B1 memo_sheet_2 = Some (VDouble 1, memo_sheet)"
    by (simp add: op_defs demo_defs memo_sheet_2_def memo_sheet_def) ((rule ext, simp)?)
  show "Clear A1 memo_sheet = memo_sheet_cleared"
    by (simp add: op_defs demo_defs memo_sheet_def memo_sheet_cleared_def) ((rule ext, simp)?)
  show "GetCache memo_sheet_cleared B1 = Some (FDouble 1)"
    by (simp add: GetCache_def memo_sheet_cleared_def demo_defs)
  show "Evaluate demo_env (GetValue 0 demo_env) (cell_ref A1 ''A1'') memo_sheet_cleared
       = Some (FDouble 0, memo_sheet_cleared)"
    by (simp add: op_defs demo_defs memo_sheet_cleared_def)
  show "GetValue 1 demo_env B1 memo_sheet_cleared = Some (VDouble 1, memo_sheet_cleared)"
    by (simp add: op_defs demo_defs memo_sheet_cleared_def)
qed

text \<open>
  Claim C2 fails on the code.  For the raw list \<open>A1, B1, A1\<close> (all valid)
  \<open>Formula::GetReferencedCells\<close> returns \<open>A1, B1, A1\<close>: \<open>std::unique\<close> only removes an
  element equal to its predecessor.
\<close>

theorem GetReferencedCells_keeps_duplicate:
  "Formula_GetReferencedCells demo_env dup_ast = [A1, B1, A1]
   \<and> \<not> distinct (Formula_GetReferencedCells demo_env dup_ast)
   \<and> new_impl demo_env ''=A1+B1+A1'' = Inr (FormulaImpl dup_ast None)"
  by (simp add: op_defs demo_defs)

section \<open>Cell::Set and the cycle search\<close>













section \<open>Properties of reading a value\<close>

lemma Execute_invariant:
  assumes cb: "\<And>pos s r s'. callback pos s = Some (r, s') \<Longrightarrow> Q s s'"
    and refl: "\<And>s. Q s s"
    and trans: "\<And>s s' s''. Q s s' \<Longrightarrow> Q s' s'' \<Longrightarrow> Q s s''"
  shows "Execute ex callback s = Some (r, s') \<Longrightarrow> Q s s'"
proof (induction ex arbitrary: s)
  case (Return d)
  then show ?case by (simp add: refl)
next
  case (Throw e)
  then show ?case by (simp add: refl)
next
  case (Call pos k)
  from Call.prems obtain r1 s1 where c: "callback pos s = Some (r1, s1)"
    by (cases "callback pos s") auto
  show ?case
  proof (cases r1)
    case (Inl e)
    with Call.prems c have "s' = s1" by simp
    with cb [OF c] show ?thesis by simp
  next
    case (Inr d)
    with Call.prems c have "Execute (k d) callback s1 = Some (r, s')" by simp
    from Call.IH [OF _ this] have "Q s1 s'" by simp
    with cb [OF c] show ?thesis by (rule trans)
  qed
qed

lemma CellImpl_invariant:
  assumes gv: "\<And>pos s v s'. cell_GetValue pos s = Some (v, s') \<Longrightarrow> Q s s'"
    and refl: "\<And>s. Q s s"
  shows "CellImpl env cell_GetValue pos s = Some (r, s') \<Longrightarrow> Q s s'"
  by (auto simp: CellImpl_def refl split: if_splits option.splits CellValue.splits prod.splits
        dest: gv)

lemma GetValue_same_cells:
  "GetValue n env p s = Some (v, s') \<Longrightarrow> \<forall>q. (s' q = None) = (s q = None)"
proof (induction n arbitrary: p s v s')
  case 0
  then show ?case
    by (auto simp: GetValue_with_def split: option.splits Impl.splits)
next
  case (Suc n)
  let ?Q = "\<lambda>s s'. \<forall>q. (s' q = None) = (s q = None)"
  have cellimpl: "?Q s s'" if "CellImpl env (GetValue n env) pos s = Some (r, s')" for pos s r s'
    using that by (rule CellImpl_invariant [where Q = ?Q, rotated 2]) (use Suc.IH in auto)
  have ex: "?Q s s'" if "Execute e (CellImpl env (GetValue n env)) s = Some (r, s')" for e s r s'
    using that by (rule Execute_invariant [where Q = ?Q, rotated 3]) (use cellimpl in auto)
  have ev: "?Q s s'" if "Evaluate env (GetValue n env) ast s = Some (fv, s')" for ast s fv s'
    using that ex [of "Program ast" s _ s']
    by (auto simp: Evaluate_def split: option.splits prod.splits sum.splits)
  have mc: "(map_cell p f s q = None) = (s q = None)" for p f s q
    by (auto simp: map_cell_def split: option.splits)
  from Suc.prems show ?case
    by (auto simp: GetValue_with_def mc split: option.splits Impl.splits dest!: ev)
qed

text \<open>A second \<open>GetValue\<close> on the same cell answers the same value and changes nothing.\<close>

lemma GetValue_again:
  assumes "GetValue n env p s = Some (v, s')"
  shows "GetValue m env p s' = Some (v, s')"
proof -
  from assms obtain c where c: "s p = Some c"
    by (cases n; cases "s p") (auto simp: GetValue_with_def)
  show ?thesis
  proof (cases "impl c")
    case EmptyImpl
    with assms c have "v = VString []" "s' = s"
      by (cases n; simp add: GetValue_with_def)+
    with c EmptyImpl show ?thesis by (cases m) (simp_all add: GetValue_with_def)
  next
    case (TextImpl t)
    with assms c have "v = VString (TextImpl_GetValue t)" "s' = s"
      by (cases n; simp add: GetValue_with_def)+
    with c TextImpl show ?thesis by (cases m) (simp_all add: GetValue_with_def)
  next
    case (FormulaImpl ast cache)
    show ?thesis
    proof (cases cache)
      case (Some fv)
      with FormulaImpl assms c have "v = visit_Value fv" "s' = s"
        by (cases n; simp add: GetValue_with_def)+
      with c FormulaImpl Some show ?thesis by (cases m) (simp_all add: GetValue_with_def)
    next
      case None
      with FormulaImpl assms c obtain k fv s1 where n: "n = Suc k"
        and e: "Evaluate env (GetValue k env) ast s = Some (fv, s1)"
        and v: "v = visit_Value fv"
        and s': "s' = map_cell p (\<lambda>c'. c'\<lparr>impl := FormulaImpl ast (Some fv)\<rparr>) s1"
        by (cases n) (auto simp: GetValue_with_def split: option.splits)
      from GetValue_same_cells [OF assms] c obtain c' where c': "s' p = Some c'"
        by (cases "s' p") auto
      with s' have "impl c' = FormulaImpl ast (Some fv)"
        by (auto simp: map_cell_def split: option.splits)
      with c' v show ?thesis by (cases m) (simp_all add: GetValue_with_def)
    qed
  qed
qed

text \<open>
  Claim C7.  The resolver of \<open>Formula::Evaluate\<close> at a referenced position: \<open>#REF!\<close> for an
  invalid position; \<open>0\<close> where the sheet has no cell; the number itself when the value of
  the cell is a number; for a text value \<open>0\<close> when the text is empty, the number read when
  the extraction succeeds and ends at the end of the string, and \<open>#VALUE!\<close> when the
  extraction fails or stops before the end; the same error when the value of the cell is
  an error.  An error of the resolver ends the execution at once and is the value
  \<open>Evaluate\<close> returns.
\<close>

theorem CellImpl_resolver:
  "(\<not> IsValid env pos \<longrightarrow>
      CellImpl env (GetValue n env) pos s = Some (Inl (FormulaError Ref), s))
   \<and> (IsValid env pos \<and> GetCell s pos = None \<longrightarrow>
      CellImpl env (GetValue n env) pos s = Some (Inr 0, s))
   \<and> (IsValid env pos \<and> GetCell s pos \<noteq> None \<and> GetValue n env pos s = Some (VDouble d, s') \<longrightarrow>
      CellImpl env (GetValue n env) pos s = Some (Inr d, s'))
   \<and> (IsValid env pos \<and> GetCell s pos \<noteq> None \<and> GetValue n env pos s = Some (VString [], s') \<longrightarrow>
      CellImpl env (GetValue n env) pos s = Some (Inr 0, s'))
   \<and> (IsValid env pos \<and> GetCell s pos \<noteq> None \<and> GetValue n env pos s = Some (VString str, s')
        \<and> str \<noteq> [] \<and> read_double env str = Some (d, True) \<longrightarrow>
      CellImpl env (GetValue n env) pos s = Some (Inr d, s'))
   \<and> (IsValid env pos \<and> GetCell s pos \<noteq> None \<and> GetValue n env pos s = Some (VString str, s')
        \<and> str \<noteq> [] \<and> (read_double env str = None \<or> read_double env str = Some (d, False)) \<longrightarrow>
      CellImpl env (GetValue n env) pos s = Some (Inl (FormulaError Value), s'))
   \<and> (IsValid env pos \<and> GetCell s pos \<noteq> None \<and> GetValue n env pos s = Some (VError e, s') \<longrightarrow>
      CellImpl env (GetValue n env) pos s = Some (Inl e, s'))
   \<and> (CellImpl env (GetValue n env) pos s = Some (Inl e, s') \<longrightarrow>
      Execute (Call pos k) (CellImpl env (GetValue n env)) s = Some (Inl e, s')
      \<and> Evaluate env (GetValue n env) (FormulaAST cells printed (Call pos k)) s = Some (FError e, s'))"
  by (auto simp: CellImpl_def Evaluate_def split: option.splits)


lemma value_sheet_values:
  "GetValue 0 demo_env A1 value_sheet = Some (VString ''7'', value_sheet)"
  "GetValue 0 demo_env B1 value_sheet = Some (VString ''7up'', value_sheet)"
  "GetValue 0 demo_env C1 value_sheet = Some (VDouble 7, value_sheet)"
  "GetValue 0 demo_env D1 value_sheet = Some (VError (FormulaError Div0), value_sheet)"
  "GetValue 0 demo_env (Position 1 0) value_sheet = Some (VString [], value_sheet)"
  "GetValue 0 demo_env (Position 1 1) value_sheet = Some (VString ''abc'', value_sheet)"
  by (simp_all add: GetValue_with_def value_sheet_def demo_defs ESCAPE_SIGN_def)

lemma value_sheet_cells:
  "GetCell value_sheet A1 \<noteq> None" "GetCell value_sheet B1 \<noteq> None"
  "GetCell value_sheet C1 \<noteq> None" "GetCell value_sheet D1 \<noteq> None"
  "GetCell value_sheet (Position 1 0) \<noteq> None" "GetCell value_sheet (Position 1 1) \<noteq> None"
  "GetCell value_sheet (Position 5 5) = None"
  by (simp_all add: GetCell_def value_sheet_def demo_defs)

lemma demo_env_valid:
  "\<not> IsValid demo_env (Position (- 1) 0)"
  "IsValid demo_env A1" "IsValid demo_env B1" "IsValid demo_env C1" "IsValid demo_env D1"
  "IsValid demo_env (Position 1 0)" "IsValid demo_env (Position 1 1)"
  "IsValid demo_env (Position 5 5)"
  by (simp_all add: demo_defs)

lemma demo_env_read:
  "read_double demo_env ''7'' = Some (7, True)"
  "read_double demo_env ''7up'' = Some (7, False)"
  "read_double demo_env ''abc'' = None"
  by (simp_all add: demo_env_def)

text \<open>Every case of the resolver on one sheet, and an evaluation of \<open>D1+A1\<close> that ends
  with the error of \<open>D1\<close>.\<close>

theorem CellImpl_resolver_witness:
  "CellImpl demo_env (GetValue 0 demo_env) (Position (- 1) 0) value_sheet
     = Some (Inl (FormulaError Ref), value_sheet)
   \<and> CellImpl demo_env (GetValue 0 demo_env) (Position 5 5) value_sheet = Some (Inr 0, value_sheet)
   \<and> CellImpl demo_env (GetValue 0 demo_env) C1 value_sheet = Some (Inr 7, value_sheet)
   \<and> CellImpl demo_env (GetValue 0 demo_env) (Position 1 0) value_sheet = Some (Inr 0, value_sheet)
   \<and> CellImpl demo_env (GetValue 0 demo_env) A1 value_sheet = Some (Inr 7, value_sheet)
   \<and> CellImpl demo_env (GetValue 0 demo_env) B1 value_sheet
     = Some (Inl (FormulaError Value), value_sheet)
   \<and> CellImpl demo_env (GetValue 0 demo_env) (Position 1 1) value_sheet
     = Some (Inl (FormulaError Value), value_sheet)
   \<and> CellImpl demo_env (GetValue 0 demo_env) D1 value_sheet
     = Some (Inl (FormulaError Div0), value_sheet)
   \<and> Evaluate demo_env (GetValue 0 demo_env) (sum_ast D1 A1 ''D1+A1'') value_sheet
     = Some (FError (FormulaError Div0), value_sheet)"
proof -
  note r = CellImpl_resolver [where env = demo_env and n = 0 and s = value_sheet
      and s' = value_sheet]
  have 1: "CellImpl demo_env (GetValue 0 demo_env) (Position (- 1) 0) value_sheet
     = Some (Inl (FormulaError Ref), value_sheet)"
    using r [where pos = "Position (- 1) 0", THEN conjunct1] demo_env_valid by blast
  have 2: "CellImpl demo_env (GetValue 0 demo_env) (Position 5 5) value_sheet = Some (Inr 0, value_sheet)"
    using r [where pos = "Position 5 5", THEN conjunct2, THEN conjunct1]
      demo_env_valid value_sheet_cells by blast
  have 3: "CellImpl demo_env (GetValue 0 demo_env) C1 value_sheet = Some (Inr 7, value_sheet)"
    using r [where pos = C1 and d = 7, THEN conjunct2, THEN conjunct2, THEN conjunct1]
      demo_env_valid value_sheet_cells value_sheet_values by blast
  have 4: "CellImpl demo_env (GetValue 0 demo_env) (Position 1 0) value_sheet = Some (Inr 0, value_sheet)"
    using r [where pos = "Position 1 0", THEN conjunct2, THEN conjunct2, THEN conjunct2, THEN conjunct1]
      demo_env_valid value_sheet_cells value_sheet_values by blast
  have 5: "CellImpl demo_env (GetValue 0 demo_env) A1 value_sheet = Some (Inr 7, value_sheet)"
    using r [where pos = A1 and str = "''7''" and d = 7, THEN conjunct2, THEN conjunct2,
        THEN conjunct2, THEN conjunct2, THEN conjunct1]
      demo_env_valid value_sheet_cells value_sheet_values demo_env_read by blast
  have 6: "CellImpl demo_env (GetValue 0 demo_env) B1 value_sheet
     = Some (Inl (FormulaError Value), value_sheet)"
    using r [where pos = B1 and str = "''7up''" and d = 7, THEN conjunct2, THEN conjunct2,
        THEN conjunct2, THEN conjunct2, THEN conjunct2, THEN conjunct1]
      demo_env_valid value_sheet_cells value_sheet_values demo_env_read by blast
  have 7: "CellImpl demo_env (GetValue 0 demo_env) (Position 1 1) value_sheet
     = Some (Inl (FormulaError Value), value_sheet)"
    using r [where pos = "Position 1 1" and str = "''abc''", THEN conjunct2, THEN conjunct2,
        THEN conjunct2, THEN conjunct2, THEN conjunct2, THEN conjunct1]
      demo_env_valid value_sheet_cells value_sheet_values demo_env_read by blast
  have 8: "CellImpl demo_env (GetValue 0 demo_env) D1 value_sheet
     = Some (Inl (FormulaError Div0), value_sheet)"
    using r [where pos = D1 and e = "FormulaError Div0", THEN conjunct2, THEN conjunct2,
        THEN conjunct2, THEN conjunct2, THEN conjunct2, THEN conjunct2, THEN conjunct1]
      demo_env_valid value_sheet_cells value_sheet_values by blast
  have 9: "Evaluate demo_env (GetValue 0 demo_env) (sum_ast D1 A1 ''D1+A1'') value_sheet
     = Some (FError (FormulaError Div0), value_sheet)"
    using r [where pos = D1 and e = "FormulaError Div0", THEN conjunct2, THEN conjunct2,
        THEN conjunct2, THEN conjunct2, THEN conjunct2, THEN conjunct2, THEN conjunct2] 8
    unfolding sum_ast_def by blast
  from 1 2 3 4 5 6 7 8 9 show ?thesis by blast
qed

section \<open>A cascade that does not return\<close>

lemma cyc_sheet_reached:
  "SetCell 0 demo_env A1 ''=B1'' Map.empty = Some (None, edge_sheet)
   \<and> SetCell 0 demo_env A1 ''=C1'' edge_sheet = Some (None, cyc_sheet_2)
   \<and> SetCell 1 demo_env B1 ''=A1'' cyc_sheet_2 = Some (None, cyc_sheet_3)
   \<and> GetValue 2 demo_env B1 cyc_sheet_3 = Some (VDouble 0, cyc_sheet)"
proof (intro conjI)
  show "SetCell 0 demo_env A1 ''=B1'' Map.empty = Some (None, edge_sheet)"
    by (simp add: op_defs demo_defs edge_sheet_def) ((rule ext, simp)?)
  show "SetCell 0 demo_env A1 ''=C1'' edge_sheet = Some (None, cyc_sheet_2)"
    by (simp add: op_defs demo_defs edge_sheet_def cyc_sheet_2_def) ((rule ext, simp)?)
  show "SetCell 1 demo_env B1 ''=A1'' cyc_sheet_2 = Some (None, cyc_sheet_3)"
    by (simp add: op_defs demo_defs cyc_sheet_2_def cyc_sheet_3_def) ((rule ext, simp)?)
  show "GetValue 2 demo_env B1 cyc_sheet_3 = Some (VDouble 0, cyc_sheet)"
    by (simp add: op_defs demo_defs cyc_sheet_3_def cyc_sheet_def numeral_2_eq_2) ((rule ext, simp)?)
qed

lemma dependents_cycle_never_returns:
  assumes "dependents_of s a = [b]" "dependents_of s b = [a]"
    and "GetCache s a \<noteq> None" "GetCache s b \<noteq> None"
  shows "DestroyCache_loop n [a] s = None \<and> DestroyCache_loop n [b] s = None"
proof (induction n)
  case 0
  from assms show ?case by simp
next
  case (Suc n)
  with assms show ?case by simp
qed

lemma cyc_sheet_mid_reached:
  "Impl_GetReferencedCells demo_env i = [] \<Longrightarrow>
     UpdateDependencies demo_env C1 (map_cell C1 (\<lambda>c. c\<lparr>impl := i\<rparr>) cyc_sheet) = cyc_sheet_mid i"
  by (simp add: UpdateDependencies_def add_reference_def dependents_of_def GetReferencedCells_def
        map_cell_def Let_def cyc_sheet_def cyc_sheet_mid_def demo_defs) ((rule ext, simp)?)

lemma cyc_sheet_cascade_never_returns:
  assumes "new_impl demo_env txt = Inr i" "Impl_GetReferencedCells demo_env i = []"
  shows "Set n demo_env C1 txt cyc_sheet = None"
proof -
  have "DestroyCache_loop n [A1] (cyc_sheet_mid i) = None"
    by (rule dependents_cycle_never_returns [where b = B1, THEN conjunct1])
       (simp_all add: dependents_of_def GetCache_def cyc_sheet_mid_def demo_defs)
  moreover have "dependents_of (cyc_sheet_mid i) C1 = [A1]"
    by (simp add: dependents_of_def cyc_sheet_mid_def demo_defs)
  ultimately have "DestroyCache n C1 (cyc_sheet_mid i) = None"
    by (simp add: DestroyCache_def)
  with assms show ?thesis
    by (simp add: Set_def CheckCircularDependency_empty cyc_sheet_mid_reached)
qed

text \<open>
  Claim C8 fails on the code.  On the sheet reached by \<open>A1 = =B1\<close>, \<open>A1 = =C1\<close>,
  \<open>B1 = =A1\<close> and a read of \<open>B1\<close> (\<open>cyc_sheet_reached\<close>), \<open>Set\<close> of the escaped text \<open>'5\<close>
  on \<open>C1\<close> does not return, whatever the bound on the recursion: the cascade goes from
  \<open>A1\<close> to \<open>B1\<close> and back to \<open>A1\<close>, because \<open>B1\<close> still lists its former dependent \<open>A1\<close>
  and a memo is cleared only after the recursion into its cell has come back.  There is
  no \<open>text()\<close> or \<open>value()\<close> after the call.
\<close>

theorem Set_escaped_text_never_returns:
  "\<forall>n. Set n demo_env C1 (CHR 0x27 # ''5'') cyc_sheet = None"
proof
  fix n
  have "new_impl demo_env (CHR 0x27 # ''5'') = Inr (TextImpl (CHR 0x27 # ''5''))"
    by (simp add: new_impl_def TextImpl_ctor_def FORMULA_SIGN_def)
  then show "Set n demo_env C1 (CHR 0x27 # ''5'') cyc_sheet = None"
    by (rule cyc_sheet_cascade_never_returns) simp
qed

text \<open>
  Claim C10 fails on the code.  On the same sheet \<open>Set\<close> of the string \<open>=\<close> on \<open>C1\<close> chooses
  Text content, passes the cycle search and then does not return from the cascade,
  whatever the bound on the recursion: the call does not succeed.
\<close>

theorem Set_formula_sign_never_returns:
  "\<forall>n. Set n demo_env C1 ''='' cyc_sheet = None"
proof
  fix n
  have "new_impl demo_env ''='' = Inr (TextImpl ''='')"
    by (simp add: new_impl_def TextImpl_ctor_def)
  then show "Set n demo_env C1 ''='' cyc_sheet = None"
    by (rule cyc_sheet_cascade_never_returns) simp
qed

section \<open>The referenced positions of a formula\<close>

text \<open>What \<open>Formula::GetReferencedCells\<close> does guarantee: every position it returns is
  valid, and no position is equal to the one before it.\<close>

theorem GetReferencedCells_valid_no_adjacent_duplicate:
  "list_all (IsValid env) (Formula_GetReferencedCells env ast)
   \<and> distinct_adj (Formula_GetReferencedCells env ast)"
  by (simp add: Formula_GetReferencedCells_def list_all_iff)


end
